theory Spec2Isabelle
  imports Main "HOL-Library.Sublist"
begin

section \<open>Calendar dates of the Python runtime\<close>

text \<open>
  \<^verbatim>\<open>service.py\<close> computes on Python's \<^verbatim>\<open>datetime\<close> objects. A calendar date is
  represented here by its proleptic Gregorian ordinal (\<^verbatim>\<open>date.toordinal()\<close>, day 1 is
  0001-01-01), a \<^verbatim>\<open>datetime\<close> by that ordinal together with its time of day in
  microseconds since midnight. Python's dates range over the ordinals
  \<open>1 .. 3652059\<close> (0001-01-01 to 9999-12-31); arithmetic that leaves this range raises
  \<^verbatim>\<open>OverflowError\<close>.
\<close>

type_synonym date = int

record datetime =
  ordinal :: int
  tod :: nat

definition MAXORDINAL :: int where
  "MAXORDINAL = 3652059"

definition is_leap :: "int \<Rightarrow> bool" where
  "is_leap year \<longleftrightarrow> year mod 4 = 0 \<and> (year mod 100 \<noteq> 0 \<or> year mod 400 = 0)"

definition days_before_year :: "int \<Rightarrow> int" where
  "days_before_year year =
     (let y = year - 1 in y * 365 + y div 4 - y div 100 + y div 400)"

definition DAYS_IN_MONTH :: "int list" where
  "DAYS_IN_MONTH = [-1, 31, 28, 31, 30, 31, 30, 31, 31, 30, 31, 30, 31]"

definition DAYS_BEFORE_MONTH :: "int list" where
  "DAYS_BEFORE_MONTH = [-1, 0, 31, 59, 90, 120, 151, 181, 212, 243, 273, 304, 334]"

definition days_before_month :: "int \<Rightarrow> int \<Rightarrow> int" where
  "days_before_month year month =
     DAYS_BEFORE_MONTH ! nat month + (if month > 2 \<and> is_leap year then 1 else 0)"

text \<open>\<^verbatim>\<open>_ymd2ord\<close>: the ordinal of a year, month and day (month in 1..12).\<close>

definition ymd2ord :: "int \<Rightarrow> int \<Rightarrow> int \<Rightarrow> date" where
  "ymd2ord year month day = days_before_year year + days_before_month year month + day"

text \<open>\<^verbatim>\<open>_ord2ymd\<close>: year, month and day of an ordinal.\<close>

definition ord2ymd :: "date \<Rightarrow> int \<times> int \<times> int" where
  "ord2ymd n0 =
     (let n = n0 - 1;
          n400 = n div 146097; n = n mod 146097;
          n100 = n div 36524; n = n mod 36524;
          n4 = n div 1461; n = n mod 1461;
          n1 = n div 365; n = n mod 365;
          year = n400 * 400 + 1 + n100 * 100 + n4 * 4 + n1
      in if n1 = 4 \<or> n100 = 4 then (year - 1, 12, 31)
         else
           let leapyear = (n1 = 3 \<and> (n4 \<noteq> 24 \<or> n100 = 3));
               month = (n + 50) div 32;
               preceding = DAYS_BEFORE_MONTH ! nat month + (if month > 2 \<and> leapyear then 1 else 0)
           in if preceding > n
              then (year, month - 1,
                    n - (preceding - (DAYS_IN_MONTH ! nat (month - 1)
                                      + (if month - 1 = 2 \<and> leapyear then 1 else 0))) + 1)
              else (year, month, n - preceding + 1))"

definition year :: "datetime \<Rightarrow> int" where
  "year dt = fst (ord2ymd (ordinal dt))"

text \<open>\<^verbatim>\<open>datetime.weekday()\<close>: Monday is 0, Sunday is 6.\<close>

definition weekday :: "datetime \<Rightarrow> int" where
  "weekday dt = (ordinal dt + 6) mod 7"

text \<open>\<^verbatim>\<open>datetime.date()\<close> drops the time of day.\<close>

definition date_of :: "datetime \<Rightarrow> date" where
  "date_of dt = ordinal dt"

text \<open>\<^verbatim>\<open>datetime.combine(d, datetime.min.time())\<close>: midnight of the date.\<close>

definition combine_min :: "date \<Rightarrow> datetime" where
  "combine_min d = \<lparr>ordinal = d, tod = 0\<rparr>"

text \<open>The order of \<^verbatim>\<open>datetime\<close> values: by date, then by time of day.\<close>

definition dt_less :: "datetime \<Rightarrow> datetime \<Rightarrow> bool" where
  "dt_less a b \<longleftrightarrow> ordinal a < ordinal b \<or> (ordinal a = ordinal b \<and> tod a < tod b)"

section \<open>Errors\<close>

text \<open>
  The exceptions that occur: the service's own \<^verbatim>\<open>DateOperationError\<close>, Python's
  \<^verbatim>\<open>TypeError\<close>, \<^verbatim>\<open>OverflowError\<close> and \<^verbatim>\<open>ValueError\<close>, the \<^verbatim>\<open>re.error\<close> that
  \<^verbatim>\<open>strptime\<close> raises for a format it cannot compile (it is not a \<^verbatim>\<open>ValueError\<close>), and
  the errors of a holiday provider.
\<close>

datatype error =
    DateOperationError string
  | TypeError string
  | OverflowError
  | ValueError string
  | ReError string
  | ProviderError string

text \<open>
  \<^verbatim>\<open>current += timedelta(days=step)\<close>: the date moves by whole days, the time of day
  stays; a result outside the supported range raises \<^verbatim>\<open>OverflowError\<close>.
\<close>

definition add_timedelta_days :: "datetime \<Rightarrow> int \<Rightarrow> error + datetime" where
  "add_timedelta_days dt n =
     (let d = ordinal dt + n
      in if 0 < d \<and> d \<le> MAXORDINAL then Inr (dt\<lparr>ordinal := d\<rparr>) else Inl OverflowError)"

section \<open>The service and its collaborators\<close>

text \<open>
  \<^verbatim>\<open>DateInput = str | date | datetime\<close>; \<^verbatim>\<open>normalize\<close> also tests for \<^verbatim>\<open>None\<close> and
  rejects every other type. \<open>InOther\<close> carries the text of \<^verbatim>\<open>type(date_input)\<close>.
\<close>

datatype DateInput =
    InNone
  | InDatetime datetime
  | InDate date
  | InStr string
  | InOther string

text \<open>
  \<^verbatim>\<open>HolidayProvider.get_holidays(year, country_code)\<close> returns a set of dates or raises.
\<close>

type_synonym HolidayProvider = "int \<Rightarrow> string \<Rightarrow> error + date set"

record DateConfig =
  default_input_format :: string

record DateService =
  config :: DateConfig
  holiday_provider :: HolidayProvider

text \<open>
  What the service reads from the Python runtime: \<^verbatim>\<open>datetime.strptime\<close>, which
  returns a \<^verbatim>\<open>datetime\<close> or raises (a \<^verbatim>\<open>ValueError\<close> when the string does not match
  the format or the format has a bad directive, another exception such as \<^verbatim>\<open>re.error\<close>
  when the format repeats a directive), and the clock read by \<^verbatim>\<open>datetime.now()\<close>.
\<close>

record runtime =
  strptime :: "string \<Rightarrow> string \<Rightarrow> error + datetime"
  now :: datetime

text \<open>Calls made to the holiday provider, in the order they are made.\<close>

type_synonym calls = "(int \<times> string) list"

section \<open>normalize\<close>

text \<open>
  Of the exceptions of \<^verbatim>\<open>strptime\<close>, \<^verbatim>\<open>except ValueError\<close> turns a \<^verbatim>\<open>ValueError\<close>
  into a \<^verbatim>\<open>DateOperationError\<close>; any other exception leaves \<^verbatim>\<open>normalize\<close> as it is.
\<close>

text \<open>\<^verbatim>\<open>input_format or self.config.default_input_format\<close>: \<^verbatim>\<open>None\<close> and the empty
  string are both falsy.\<close>

fun chosen_format :: "DateService \<Rightarrow> string option \<Rightarrow> string" where
  "chosen_format self None = default_input_format (config self)"
| "chosen_format self (Some f) = (if f = [] then default_input_format (config self) else f)"

definition parse_error_message :: "string \<Rightarrow> string \<Rightarrow> string" where
  "parse_error_message date_input format =
     ''Could not parse '' @ [CHR 0x27] @ date_input @ [CHR 0x27]
       @ '' with format '' @ [CHR 0x27] @ format @ [CHR 0x27]"

fun normalize_input :: "DateService \<Rightarrow> runtime \<Rightarrow> DateInput \<Rightarrow> string option \<Rightarrow> error + datetime" where
  "normalize_input self rt InNone input_format = Inr (now rt)"
| "normalize_input self rt (InDatetime dt) input_format = Inr dt"
| "normalize_input self rt (InDate d) input_format = Inr (combine_min d)"
| "normalize_input self rt (InStr s) input_format =
     (let format = chosen_format self input_format
      in case strptime rt s format of
           Inr dt \<Rightarrow> Inr dt
         | Inl e \<Rightarrow>
             (case e of
                ValueError m \<Rightarrow> Inl (DateOperationError (parse_error_message s format))
              | _ \<Rightarrow> Inl e))"
| "normalize_input self rt (InOther ty) input_format = Inl (TypeError (''Unsupported type: '' @ ty))"

section \<open>The holiday set\<close>

text \<open>\<^verbatim>\<open>list(range(a, b))\<close>: the integers from \<open>a\<close> up to but excluding \<open>b\<close>.\<close>

definition py_range :: "int \<Rightarrow> int \<Rightarrow> int list" where
  "py_range a b = [a..b - 1]"

text \<open>
  The loop of \<^verbatim>\<open>_get_holiday_set\<close>: one provider call per year, in order, each result
  added to the set; an exception of the provider ends the loop and is the outcome.
\<close>

fun fetch_years ::
  "HolidayProvider \<Rightarrow> string \<Rightarrow> int list \<Rightarrow> date set \<Rightarrow> calls \<Rightarrow> (error + date set) \<times> calls" where
  "fetch_years provider cc [] holidays log = (Inr holidays, log)"
| "fetch_years provider cc (y # years) holidays log =
     (case provider y cc of
        Inl e \<Rightarrow> (Inl e, log @ [(y, cc)])
      | Inr hs \<Rightarrow> fetch_years provider cc years (holidays \<union> hs) (log @ [(y, cc)]))"

fun get_holiday_set ::
  "DateService \<Rightarrow> int list \<Rightarrow> string option \<Rightarrow> (error + date set) \<times> calls" where
  "get_holiday_set self years None = (Inr {}, [])"
| "get_holiday_set self years (Some cc) =
     (if cc = [] then (Inr {}, [])
      else fetch_years (holiday_provider self) cc years {} [])"

section \<open>add_working_days\<close>

text \<open>\<^verbatim>\<open>step = 1 if days > 0 else -1\<close>\<close>

definition step :: "int \<Rightarrow> int" where
  "step days = (if days > 0 then 1 else -1)"

text \<open>\<^verbatim>\<open>current.weekday() < 5 and current.date() not in holidays\<close>\<close>

definition counts :: "date set \<Rightarrow> datetime \<Rightarrow> bool" where
  "counts holidays current \<longleftrightarrow> weekday current < 5 \<and> date_of current \<notin> holidays"

text \<open>
  The \<^verbatim>\<open>while days_remaining > 0\<close> loop. Each round moves \<open>current\<close> by \<open>step days\<close>, so
  it comes one day closer to the end of the date range in that direction: the loop
  ends with a date or with the \<^verbatim>\<open>OverflowError\<close> of the addition.
\<close>

function working_day_loop :: "date set \<Rightarrow> int \<Rightarrow> int \<Rightarrow> datetime \<Rightarrow> error + datetime" where
  "working_day_loop holidays days days_remaining current =
     (if days_remaining > 0 then
        (case add_timedelta_days current (step days) of
           Inl e \<Rightarrow> Inl e
         | Inr current' \<Rightarrow>
             working_day_loop holidays days
               (if counts holidays current' then days_remaining - 1 else days_remaining)
               current')
      else Inr current)"
  by pat_completeness auto
termination
proof (relation "measure (\<lambda>(holidays, days, days_remaining, current).
                   if days > 0 then nat (MAXORDINAL - ordinal current)
                   else nat (ordinal current))")
  show "wf (measure (\<lambda>(holidays, days, days_remaining, current).
                   if days > 0 then nat (MAXORDINAL - ordinal current)
                   else nat (ordinal current)))"
    by simp
next
  fix holidays :: "date set" and days days_remaining :: int and current current' :: datetime
  assume "add_timedelta_days current (step days) = Inr current'"
  then show "((holidays, days,
               if counts holidays current' then days_remaining - 1 else days_remaining,
               current'),
              (holidays, days, days_remaining, current))
             \<in> measure (\<lambda>(holidays, days, days_remaining, current).
                   if days > 0 then nat (MAXORDINAL - ordinal current)
                   else nat (ordinal current))"
    by (auto simp: add_timedelta_days_def step_def Let_def split: if_splits)
qed

declare working_day_loop.simps [simp del]

definition add_working_days ::
  "DateService \<Rightarrow> runtime \<Rightarrow> DateInput \<Rightarrow> int \<Rightarrow> string option \<Rightarrow> (error + datetime) \<times> calls" where
  "add_working_days self rt date_input days country_code =
     (if days = 0 then (normalize_input self rt date_input None, [])
      else
        case normalize_input self rt date_input None of
          Inl e \<Rightarrow> (Inl e, [])
        | Inr dt \<Rightarrow>
            (let required_years = py_range (year dt) (year dt + days div 200 + 2);
                 (fetched, log) = get_holiday_set self required_years country_code
             in (case fetched of
                   Inl e \<Rightarrow> (Inl e, log)
                 | Inr holidays \<Rightarrow> (working_day_loop holidays days \<bar>days\<bar> dt, log))))"

section \<open>Auxiliary notions and example values\<close>

text \<open>The values a Python \<^verbatim>\<open>datetime\<close> can take: its date lies in the supported range.\<close>

definition valid_datetime :: "datetime \<Rightarrow> bool" where
  "valid_datetime dt \<longleftrightarrow> 0 < ordinal dt \<and> ordinal dt \<le> MAXORDINAL"

text \<open>
  The days from ordinal \<open>a\<close> to ordinal \<open>b\<close> (both included) that the loop counts, for a
  holiday set.
\<close>

definition counted_days :: "date set \<Rightarrow> int \<Rightarrow> int \<Rightarrow> int list" where
  "counted_days holidays a b = filter (\<lambda>d. counts holidays (combine_min d)) [a..b]"

text \<open>
  The fixtures of \<^verbatim>\<open>tests/conftest.py\<close>: a provider without holidays and a service
  built on it. The default input format of \<^verbatim>\<open>DateConfig\<close> is not part of the sources
  at hand; the examples take day.month.year.
\<close>

definition mock_provider :: HolidayProvider where
  "mock_provider = (\<lambda>year country_code. Inr {})"

definition service :: DateService where
  "service = \<lparr>config = \<lparr>default_input_format = ''%d.%m.%Y''\<rparr>, holiday_provider = mock_provider\<rparr>"

text \<open>Further example values: a provider that fails for 2025, one whose only holiday
  of a year is the first of January, and a runtime whose clock reads 2024-01-01 00:00.
  Its parser stands for \<^verbatim>\<open>strptime\<close> on the inputs of the examples: the format
  \<^verbatim>\<open>%d.%d.%Y\<close> repeats a directive and is refused with \<^verbatim>\<open>re.error\<close>, the string
  \<^verbatim>\<open>01.01.2024\<close> matches \<^verbatim>\<open>%d.%m.%Y\<close>, and the other pairs used (\<^verbatim>\<open>tomorrow\<close> with
  \<^verbatim>\<open>%d.%m.%Y\<close>, \<^verbatim>\<open>01.01.2024\<close> with the empty format) do not match.\<close>

definition failing_provider :: HolidayProvider where
  "failing_provider = (\<lambda>year country_code.
     if year = 2025 then Inl (ProviderError ''timeout'') else Inr {})"

definition new_year_provider :: HolidayProvider where
  "new_year_provider = (\<lambda>year country_code. Inr {ymd2ord year 1 1})"

definition example_strptime :: "string \<Rightarrow> string \<Rightarrow> error + datetime" where
  "example_strptime s format =
     (if format = ''%d.%d.%Y'' then Inl (ReError ''redefinition of group name'')
      else if s = ''01.01.2024'' \<and> format = ''%d.%m.%Y'' then Inr (combine_min 738886)
      else Inl (ValueError ''time data does not match format''))"

definition example_runtime :: runtime where
  "example_runtime = \<lparr>strptime = example_strptime, now = combine_min 738886\<rparr>"

section \<open>Basic facts\<close>

lemma ymd2ord_2024_01_01: "ymd2ord 2024 1 1 = 738886"
  by (simp add: ymd2ord_def days_before_year_def days_before_month_def
      DAYS_BEFORE_MONTH_def is_leap_def)

lemma ymd2ord_2024_01_08: "ymd2ord 2024 1 8 = 738893"
  by (simp add: ymd2ord_def days_before_year_def days_before_month_def
      DAYS_BEFORE_MONTH_def is_leap_def)

lemma ymd2ord_2023_12_27: "ymd2ord 2023 12 27 = 738881"
  by (simp add: ymd2ord_def days_before_year_def days_before_month_def
      DAYS_BEFORE_MONTH_def is_leap_def)

lemma year_2024_01_01: "year (combine_min 738886) = 2024"
  by (simp add: year_def combine_min_def ord2ymd_def Let_def)

lemmas loop_eval = working_day_loop.simps add_timedelta_days_def step_def counts_def
  weekday_def date_of_def MAXORDINAL_def Let_def

lemma required_years_eq:
  "py_range (year dt) (year dt + days div 200 + 2) = [year dt..year dt + days div 200 + 1]"
proof -
  have "year dt + days div 200 + 2 - 1 = year dt + days div 200 + 1" by simp
  then show ?thesis unfolding py_range_def by (rule arg_cong)
qed

lemma add_working_days_stepped:
  assumes "days \<noteq> 0" and "normalize_input self rt d None = Inr dt"
    and "get_holiday_set self [year dt..year dt + days div 200 + 1] cc = (Inr holidays, log)"
  shows "add_working_days self rt d days cc = (working_day_loop holidays days \<bar>days\<bar> dt, log)"
  unfolding add_working_days_def required_years_eq using assms by simp

lemma add_working_days_provider_error:
  assumes "days \<noteq> 0" and "normalize_input self rt d None = Inr dt"
    and "get_holiday_set self [year dt..year dt + days div 200 + 1] cc = (Inl e, log)"
  shows "add_working_days self rt d days cc = (Inl e, log)"
  unfolding add_working_days_def required_years_eq using assms by simp

subsection \<open>The provider calls of fetch_years\<close>

lemma fetch_years_all_ok:
  "\<forall>y\<in>set ys. \<exists>hs. provider y cc = Inr hs \<Longrightarrow>
   fetch_years provider cc ys holidays log
     = (Inr (holidays \<union> (\<Union>y\<in>set ys. case provider y cc of Inr hs \<Rightarrow> hs | Inl e \<Rightarrow> {})),
        log @ map (\<lambda>y. (y, cc)) ys)"
proof (induction ys arbitrary: holidays log)
  case Nil
  then show ?case by simp
next
  case (Cons y ys)
  then obtain hs where hs: "provider y cc = Inr hs" by auto
  from Cons.prems have "\<forall>y\<in>set ys. \<exists>hs. provider y cc = Inr hs" by simp
  from Cons.IH [OF this, of "holidays \<union> hs" "log @ [(y, cc)]"] hs
  show ?case by (simp add: Un_assoc)
qed

lemma fetch_years_first_failure:
  "\<forall>y\<in>set ys1. \<exists>hs. provider y cc = Inr hs \<Longrightarrow> provider y cc = Inl e \<Longrightarrow>
   fetch_years provider cc (ys1 @ y # ys2) holidays log
     = (Inl e, log @ map (\<lambda>y. (y, cc)) (ys1 @ [y]))"
  by (induction ys1 arbitrary: holidays log) auto

lemma fetch_years_empty:
  "\<forall>y\<in>set ys. provider y cc = Inr {} \<Longrightarrow>
   fetch_years provider cc ys {} log = (Inr {}, log @ map (\<lambda>y. (y, cc)) ys)"
  by (induction ys arbitrary: log) auto

lemma distinct_calls: "distinct (map (\<lambda>y. (y, cc :: string)) [a..b])"
  by (simp add: distinct_map inj_on_def)

lemma parse_error_message_contains:
  "sublist s (parse_error_message s f) \<and> sublist f (parse_error_message s f)"
proof
  have "parse_error_message s f
          = (''Could not parse '' @ [CHR 0x27]) @ s
              @ ([CHR 0x27] @ '' with format '' @ [CHR 0x27] @ f @ [CHR 0x27])"
    by (simp add: parse_error_message_def)
  then show "sublist s (parse_error_message s f)"
    unfolding sublist_def by blast
  have "parse_error_message s f
          = (''Could not parse '' @ [CHR 0x27] @ s @ [CHR 0x27] @ '' with format '' @ [CHR 0x27])
              @ f @ [CHR 0x27]"
    by (simp add: parse_error_message_def)
  then show "sublist f (parse_error_message s f)"
    unfolding sublist_def by blast
qed

subsection \<open>The counted days and the stepping loop\<close>

lemma counts_ordinal: "counts H c \<longleftrightarrow> counts H (combine_min (ordinal c))"
  by (simp add: counts_def weekday_def date_of_def combine_min_def)

lemma counted_days_first:
  "a \<le> b \<Longrightarrow> counted_days H a b
     = (if counts H (combine_min a) then [a] else []) @ counted_days H (a + 1) b"
  by (simp add: counted_days_def upto_rec1)

lemma counted_days_last:
  "a \<le> b \<Longrightarrow> counted_days H a b
     = counted_days H a (b - 1) @ (if counts H (combine_min b) then [b] else [])"
  by (simp add: counted_days_def upto_rec2)

lemma counted_days_single:
  "counted_days H a a = (if counts H (combine_min a) then [a] else [])"
  by (simp add: counted_days_def)

lemma counted_days_none: "b < a \<Longrightarrow> counted_days H a b = []"
  by (simp add: counted_days_def)

lemma add_one_day:
  assumes "add_timedelta_days c (step days) = Inr c'" and "0 < days"
  shows "c' = c\<lparr>ordinal := ordinal c + 1\<rparr> \<and> 0 < ordinal c + 1 \<and> ordinal c + 1 \<le> MAXORDINAL"
  using assms by (auto simp: add_timedelta_days_def step_def Let_def split: if_splits)

lemma sub_one_day:
  assumes "add_timedelta_days c (step days) = Inr c'" and "days \<le> 0"
  shows "c' = c\<lparr>ordinal := ordinal c - 1\<rparr> \<and> 0 < ordinal c - 1 \<and> ordinal c - 1 \<le> MAXORDINAL"
  using assms by (auto simp: add_timedelta_days_def step_def Let_def split: if_splits)

lemma loop_unfold_pos:
  "0 < n \<Longrightarrow> working_day_loop H days n c =
     (case add_timedelta_days c (step days) of
        Inl e \<Rightarrow> Inl e
      | Inr c' \<Rightarrow> working_day_loop H days (if counts H c' then n - 1 else n) c')"
  by (subst working_day_loop.simps) simp

lemma loop_done: "n \<le> 0 \<Longrightarrow> working_day_loop H days n c = Inr c"
  by (subst working_day_loop.simps) simp

lemma loop_forward_result:
  "working_day_loop H days n c = Inr r \<Longrightarrow> 0 < days \<Longrightarrow> 0 < n \<Longrightarrow>
     r = c\<lparr>ordinal := ordinal r\<rparr> \<and> ordinal c < ordinal r \<and> ordinal r \<le> MAXORDINAL
     \<and> counts H r \<and> int (length (counted_days H (ordinal c + 1) (ordinal r))) = n"
proof (induction H days n c rule: working_day_loop.induct)
  case (1 H days n c)
  from "1.prems"(1) loop_unfold_pos [OF \<open>0 < n\<close>, of H days c]
  have "(case add_timedelta_days c (step days) of
           Inl e \<Rightarrow> Inl e
         | Inr c' \<Rightarrow> working_day_loop H days (if counts H c' then n - 1 else n) c') = Inr r"
    by simp
  then obtain c' where add: "add_timedelta_days c (step days) = Inr c'"
    and rec: "working_day_loop H days (if counts H c' then n - 1 else n) c' = Inr r"
    by (cases "add_timedelta_days c (step days)") simp_all
  from add_one_day [OF add \<open>0 < days\<close>]
  have c': "c' = c\<lparr>ordinal := ordinal c + 1\<rparr>" and hi: "ordinal c + 1 \<le> MAXORDINAL"
    by simp_all
  have oc': "ordinal c' = ordinal c + 1" by (simp add: c')
  have cnt: "counts H (combine_min (ordinal c + 1)) = counts H c'"
    using counts_ordinal [of H c'] by (simp add: oc')
  show ?case
  proof (cases "0 < (if counts H c' then n - 1 else n)")
    case True
    from "1.IH" [OF \<open>0 < n\<close> add rec \<open>0 < days\<close> True]
    have r: "r = c'\<lparr>ordinal := ordinal r\<rparr>" and lt: "ordinal c' < ordinal r"
      and le: "ordinal r \<le> MAXORDINAL" and cr: "counts H r"
      and len: "int (length (counted_days H (ordinal c' + 1) (ordinal r)))
                  = (if counts H c' then n - 1 else n)"
      by simp_all
    from lt have "ordinal c + 1 \<le> ordinal r" by (simp add: oc')
    from counted_days_first [OF this, of H] len
    have "int (length (counted_days H (ordinal c + 1) (ordinal r))) = n"
      by (simp add: cnt oc')
    moreover from r have "r = c\<lparr>ordinal := ordinal r\<rparr>" by (simp add: c')
    ultimately show ?thesis using lt le cr by (simp add: oc')
  next
    case False
    with \<open>0 < n\<close> have c: "counts H c'" and n: "n = 1"
      by (auto split: if_splits)
    from rec c n have "r = c'" by (simp add: loop_done)
    then show ?thesis
      using c n hi cnt by (simp add: oc' counted_days_single) (simp add: c')
  qed
qed

lemma loop_backward_result:
  "working_day_loop H days n c = Inr r \<Longrightarrow> days \<le> 0 \<Longrightarrow> 0 < n \<Longrightarrow>
     r = c\<lparr>ordinal := ordinal r\<rparr> \<and> ordinal r < ordinal c \<and> 0 < ordinal r
     \<and> counts H r \<and> int (length (counted_days H (ordinal r) (ordinal c - 1))) = n"
proof (induction H days n c rule: working_day_loop.induct)
  case (1 H days n c)
  from "1.prems"(1) loop_unfold_pos [OF \<open>0 < n\<close>, of H days c]
  have "(case add_timedelta_days c (step days) of
           Inl e \<Rightarrow> Inl e
         | Inr c' \<Rightarrow> working_day_loop H days (if counts H c' then n - 1 else n) c') = Inr r"
    by simp
  then obtain c' where add: "add_timedelta_days c (step days) = Inr c'"
    and rec: "working_day_loop H days (if counts H c' then n - 1 else n) c' = Inr r"
    by (cases "add_timedelta_days c (step days)") simp_all
  from sub_one_day [OF add \<open>days \<le> 0\<close>]
  have c': "c' = c\<lparr>ordinal := ordinal c - 1\<rparr>" and lo: "0 < ordinal c - 1"
    by simp_all
  have oc': "ordinal c' = ordinal c - 1" by (simp add: c')
  have cnt: "counts H (combine_min (ordinal c - 1)) = counts H c'"
    using counts_ordinal [of H c'] by (simp add: oc')
  show ?case
  proof (cases "0 < (if counts H c' then n - 1 else n)")
    case True
    from "1.IH" [OF \<open>0 < n\<close> add rec \<open>days \<le> 0\<close> True]
    have r: "r = c'\<lparr>ordinal := ordinal r\<rparr>" and lt: "ordinal r < ordinal c'"
      and le: "0 < ordinal r" and cr: "counts H r"
      and len: "int (length (counted_days H (ordinal r) (ordinal c' - 1)))
                  = (if counts H c' then n - 1 else n)"
      by simp_all
    from lt have "ordinal r \<le> ordinal c - 1" by (simp add: oc')
    from counted_days_last [OF this, of H] len
    have "int (length (counted_days H (ordinal r) (ordinal c - 1))) = n"
      by (simp add: cnt oc')
    moreover from r have "r = c\<lparr>ordinal := ordinal r\<rparr>" by (simp add: c')
    ultimately show ?thesis using lt le cr by (simp add: oc')
  next
    case False
    with \<open>0 < n\<close> have c: "counts H c'" and n: "n = 1"
      by (auto split: if_splits)
    from rec c n have "r = c'" by (simp add: loop_done)
    then show ?thesis
      using c n lo cnt by (simp add: oc' counted_days_single) (simp add: c')
  qed
qed

lemma length_counted_first:
  "a \<le> b \<Longrightarrow> int (length (counted_days H a b))
     = (if counts H (combine_min a) then 1 else 0) + int (length (counted_days H (a + 1) b))"
  by (simp add: counted_days_first)

lemma length_counted_last:
  "a \<le> b \<Longrightarrow> int (length (counted_days H a b))
     = int (length (counted_days H a (b - 1))) + (if counts H (combine_min b) then 1 else 0)"
  by (simp add: counted_days_last)

lemma length_counted_second:
  assumes "a + 1 \<le> b"
  shows "int (length (counted_days H (a + 1) b))
     = (if counts H (combine_min (a + 1)) then 1 else 0) + int (length (counted_days H (a + 2) b))"
proof -
  have "a + 1 + 1 = a + 2" by simp
  with length_counted_first [OF assms, of H] show ?thesis by (simp only:)
qed

lemma length_counted_last_but_one:
  assumes "a \<le> b - 1"
  shows "int (length (counted_days H a (b - 1)))
     = int (length (counted_days H a (b - 2))) + (if counts H (combine_min (b - 1)) then 1 else 0)"
proof -
  have "b - 1 - 1 = b - 2" by simp
  with length_counted_last [OF assms, of H] show ?thesis by (simp only:)
qed


lemma loop_forward_reaches:
  "0 < days \<Longrightarrow> 0 < n \<Longrightarrow> ordinal c < ro \<Longrightarrow> ro \<le> MAXORDINAL \<Longrightarrow> 0 \<le> ordinal c \<Longrightarrow>
   counts H (combine_min ro) \<Longrightarrow> int (length (counted_days H (ordinal c + 1) ro)) = n \<Longrightarrow>
   working_day_loop H days n c = Inr (c\<lparr>ordinal := ro\<rparr>)"
proof (induction H days n c rule: working_day_loop.induct)
  case (1 H days n c)
  let ?c' = "c\<lparr>ordinal := ordinal c + 1\<rparr>"
  let ?n' = "if counts H ?c' then n - 1 else n"
  have add: "add_timedelta_days c (step days) = Inr ?c'"
    using "1.prems" by (simp add: add_timedelta_days_def step_def Let_def)
  have cnt: "counts H (combine_min (ordinal c + 1)) = counts H ?c'"
    using counts_ordinal [of H ?c'] by simp
  have unfold: "working_day_loop H days n c = working_day_loop H days ?n' ?c'"
    using loop_unfold_pos [OF \<open>0 < n\<close>, of H days c] add by simp
  have le: "ordinal c + 1 \<le> ro" using "1.prems" by simp
  have len: "int (length (counted_days H (ordinal c + 2) ro)) = ?n'"
    using length_counted_second [OF le, of H] "1.prems"(7) cnt by (auto split: if_splits)
  show ?case
  proof (cases "ordinal c + 1 = ro")
    case True
    then have "counted_days H (ordinal c + 1) ro = [ro]" and c: "counts H ?c'"
      using "1.prems"(6) cnt by (simp_all add: counted_days_single)
    with "1.prems"(7) have "n = 1" by simp
    with c have "?n' = 0" by simp
    then have "working_day_loop H days ?n' ?c' = Inr ?c'"
      by (simp add: loop_done)
    with unfold True show ?thesis by simp
  next
    case False
    with le have lt: "ordinal ?c' < ro" by simp
    then have "ro \<in> set (counted_days H (ordinal c + 2) ro)"
      using "1.prems"(6) by (simp add: counted_days_def)
    then have "0 < length (counted_days H (ordinal c + 2) ro)"
      by (cases "counted_days H (ordinal c + 2) ro") simp_all
    with len have pos: "0 < ?n'" by linarith
    have "ordinal ?c' + 1 = ordinal c + 2" by simp
    with len have len': "int (length (counted_days H (ordinal ?c' + 1) ro)) = ?n'"
      by (simp only:)
    have "0 \<le> ordinal ?c'" using "1.prems"(5) by simp
    from "1.IH" [OF \<open>0 < n\<close> add \<open>0 < days\<close> pos lt \<open>ro \<le> MAXORDINAL\<close> this "1.prems"(6) len']
    have "working_day_loop H days ?n' ?c' = Inr (?c'\<lparr>ordinal := ro\<rparr>)" .
    with unfold show ?thesis by simp
  qed
qed

lemma loop_backward_reaches:
  "days \<le> 0 \<Longrightarrow> 0 < n \<Longrightarrow> ro < ordinal c \<Longrightarrow> 0 < ro \<Longrightarrow> ordinal c - 1 \<le> MAXORDINAL \<Longrightarrow>
   counts H (combine_min ro) \<Longrightarrow> int (length (counted_days H ro (ordinal c - 1))) = n \<Longrightarrow>
   working_day_loop H days n c = Inr (c\<lparr>ordinal := ro\<rparr>)"
proof (induction H days n c rule: working_day_loop.induct)
  case (1 H days n c)
  let ?c' = "c\<lparr>ordinal := ordinal c - 1\<rparr>"
  let ?n' = "if counts H ?c' then n - 1 else n"
  have add: "add_timedelta_days c (step days) = Inr ?c'"
    using "1.prems" by (simp add: add_timedelta_days_def step_def Let_def)
  have cnt: "counts H (combine_min (ordinal c - 1)) = counts H ?c'"
    using counts_ordinal [of H ?c'] by simp
  have unfold: "working_day_loop H days n c = working_day_loop H days ?n' ?c'"
    using loop_unfold_pos [OF \<open>0 < n\<close>, of H days c] add by simp
  have le: "ro \<le> ordinal c - 1" using "1.prems" by simp
  have len: "int (length (counted_days H ro (ordinal c - 2))) = ?n'"
    using length_counted_last_but_one [OF le, of H] "1.prems"(7) cnt by (auto split: if_splits)
  show ?case
  proof (cases "ordinal c - 1 = ro")
    case True
    then have "counted_days H ro (ordinal c - 1) = [ro]" and c: "counts H ?c'"
      using "1.prems"(6) cnt by (simp_all add: counted_days_single)
    with "1.prems"(7) have "n = 1" by simp
    with c have "?n' = 0" by simp
    then have "working_day_loop H days ?n' ?c' = Inr ?c'"
      by (simp add: loop_done)
    with unfold True show ?thesis by simp
  next
    case False
    with le have lt: "ro < ordinal ?c'" by simp
    then have "ro \<in> set (counted_days H ro (ordinal c - 2))"
      using "1.prems"(6) by (simp add: counted_days_def)
    then have "0 < length (counted_days H ro (ordinal c - 2))"
      by (cases "counted_days H ro (ordinal c - 2)") simp_all
    with len have pos: "0 < ?n'" by linarith
    have "ordinal ?c' - 1 = ordinal c - 2" by simp
    with len have len': "int (length (counted_days H ro (ordinal ?c' - 1))) = ?n'"
      by (simp only:)
    have "ordinal ?c' - 1 \<le> MAXORDINAL" using "1.prems"(5) by simp
    from "1.IH" [OF \<open>0 < n\<close> add \<open>days \<le> 0\<close> pos lt \<open>0 < ro\<close> this "1.prems"(6) len']
    have "working_day_loop H days ?n' ?c' = Inr (?c'\<lparr>ordinal := ro\<rparr>)" .
    with unfold show ?thesis by simp
  qed
qed

lemma loop_only_overflow:
  "working_day_loop H days n c = Inl e \<Longrightarrow> e = OverflowError"
proof (induction H days n c rule: working_day_loop.induct)
  case (1 H days n c)
  show ?case
  proof (cases "0 < n")
    case True
    from "1.prems" loop_unfold_pos [OF True, of H days c]
    have *: "(case add_timedelta_days c (step days) of
           Inl e \<Rightarrow> Inl e
         | Inr c' \<Rightarrow> working_day_loop H days (if counts H c' then n - 1 else n) c') = Inl e"
      by simp
    show ?thesis
    proof (cases "add_timedelta_days c (step days)")
      case (Inl e')
      with * show ?thesis
        by (auto simp: add_timedelta_days_def Let_def split: if_splits)
    next
      case (Inr c')
      with * "1.IH" [OF True Inr] show ?thesis by simp
    qed
  next
    case False
    with "1.prems" show ?thesis by (simp add: loop_done)
  qed
qed

lemma loop_forward_returns:
  "0 < days \<Longrightarrow> 0 \<le> ordinal c \<Longrightarrow> hi \<le> MAXORDINAL \<Longrightarrow>
   n \<le> int (length (counted_days H (ordinal c + 1) hi)) \<Longrightarrow>
   \<exists>r. working_day_loop H days n c = Inr r"
proof (induction H days n c rule: working_day_loop.induct)
  case (1 H days n c)
  show ?case
  proof (cases "0 < n")
    case True
    let ?c' = "c\<lparr>ordinal := ordinal c + 1\<rparr>"
    let ?n' = "if counts H ?c' then n - 1 else n"
    from True "1.prems"(4) have "counted_days H (ordinal c + 1) hi \<noteq> []" by auto
    then have le: "ordinal c + 1 \<le> hi"
      by (cases "ordinal c + 1 \<le> hi") (simp_all add: counted_days_none)
    have add: "add_timedelta_days c (step days) = Inr ?c'"
      using "1.prems" le by (simp add: add_timedelta_days_def step_def Let_def)
    have cnt: "counts H (combine_min (ordinal c + 1)) = counts H ?c'"
      using counts_ordinal [of H ?c'] by simp
    have unfold: "working_day_loop H days n c = working_day_loop H days ?n' ?c'"
      using loop_unfold_pos [OF True, of H days c] add by simp
    have "?n' \<le> int (length (counted_days H (ordinal c + 2) hi))"
      using length_counted_second [OF le, of H] "1.prems"(4) cnt by (auto split: if_splits)
    moreover have "ordinal ?c' + 1 = ordinal c + 2" by simp
    ultimately have len: "?n' \<le> int (length (counted_days H (ordinal ?c' + 1) hi))"
      by (simp only:)
    have "0 \<le> ordinal ?c'" using "1.prems"(2) by simp
    from "1.IH" [OF True add \<open>0 < days\<close> this \<open>hi \<le> MAXORDINAL\<close> len]
    have "\<exists>r. working_day_loop H days ?n' ?c' = Inr r" .
    with unfold show ?thesis by simp
  next
    case False
    then show ?thesis by (simp add: loop_done)
  qed
qed

lemma loop_backward_returns:
  "days \<le> 0 \<Longrightarrow> ordinal c - 1 \<le> MAXORDINAL \<Longrightarrow> 0 < lo \<Longrightarrow>
   n \<le> int (length (counted_days H lo (ordinal c - 1))) \<Longrightarrow>
   \<exists>r. working_day_loop H days n c = Inr r"
proof (induction H days n c rule: working_day_loop.induct)
  case (1 H days n c)
  show ?case
  proof (cases "0 < n")
    case True
    let ?c' = "c\<lparr>ordinal := ordinal c - 1\<rparr>"
    let ?n' = "if counts H ?c' then n - 1 else n"
    from True "1.prems"(4) have "counted_days H lo (ordinal c - 1) \<noteq> []" by auto
    then have le: "lo \<le> ordinal c - 1"
      by (cases "lo \<le> ordinal c - 1") (simp_all add: counted_days_none)
    have add: "add_timedelta_days c (step days) = Inr ?c'"
      using "1.prems" le by (simp add: add_timedelta_days_def step_def Let_def)
    have cnt: "counts H (combine_min (ordinal c - 1)) = counts H ?c'"
      using counts_ordinal [of H ?c'] by simp
    have unfold: "working_day_loop H days n c = working_day_loop H days ?n' ?c'"
      using loop_unfold_pos [OF True, of H days c] add by simp
    have "?n' \<le> int (length (counted_days H lo (ordinal c - 2)))"
      using length_counted_last_but_one [OF le, of H] "1.prems"(4) cnt by (auto split: if_splits)
    moreover have "ordinal ?c' - 1 = ordinal c - 2" by simp
    ultimately have len: "?n' \<le> int (length (counted_days H lo (ordinal ?c' - 1)))"
      by (simp only:)
    have "ordinal ?c' - 1 \<le> MAXORDINAL" using "1.prems"(2) by simp
    from "1.IH" [OF True add \<open>days \<le> 0\<close> this \<open>0 < lo\<close> len]
    have "\<exists>r. working_day_loop H days ?n' ?c' = Inr r" .
    with unfold show ?thesis by simp
  next
    case False
    then show ?thesis by (simp add: loop_done)
  qed
qed

subsection \<open>Results of the loop, weeks and holidays\<close>

lemma add_working_days_result:
  assumes res: "add_working_days self rt d days cc = (Inr r, log)" and nz: "days \<noteq> 0"
  obtains dt holidays where "normalize_input self rt d None = Inr dt"
    and "get_holiday_set self (py_range (year dt) (year dt + days div 200 + 2)) cc = (Inr holidays, log)"
    and "working_day_loop holidays days \<bar>days\<bar> dt = Inr r"
proof (cases "normalize_input self rt d None")
  case (Inl e)
  with res nz show ?thesis by (simp add: add_working_days_def)
next
  case (Inr dt)
  let ?ys = "py_range (year dt) (year dt + days div 200 + 2)"
  obtain fetched log' where g: "get_holiday_set self ?ys cc = (fetched, log')"
    by (cases "get_holiday_set self ?ys cc")
  show ?thesis
  proof (cases fetched)
    case (Inl e)
    with res nz Inr g show ?thesis by (simp add: add_working_days_def)
  next
    case holidays: (Inr holidays)
    with res nz Inr g have "log' = log" "working_day_loop holidays days \<bar>days\<bar> dt = Inr r"
      by (simp_all add: add_working_days_def)
    with that [of dt holidays] Inr g holidays show ?thesis by simp
  qed
qed

lemma ymd_new_year: "ymd2ord 2023 1 1 = 738521" "ymd2ord 2024 1 1 = 738886"
  by (simp_all add: ymd2ord_def days_before_year_def days_before_month_def
      DAYS_BEFORE_MONTH_def is_leap_def)

lemma year_2023_12_29: "year (combine_min 738883) = 2023"
  by (simp add: year_def combine_min_def ord2ymd_def Let_def)

lemma get_holiday_set_empty:
  assumes "cc = None \<or> cc = Some [] \<or> (\<forall>y c. holiday_provider self y c = Inr {})"
  shows "\<exists>log. get_holiday_set self ys cc = (Inr {}, log)"
proof (cases cc)
  case None
  then show ?thesis by simp
next
  case (Some c)
  show ?thesis
  proof (cases "c = []")
    case True
    with Some show ?thesis by simp
  next
    case False
    with Some assms have "\<forall>y\<in>set ys. holiday_provider self y c = Inr {}" by simp
    with fetch_years_empty [of ys "holiday_provider self" c "[]"] Some False
    show ?thesis by simp
  qed
qed

lemma counted_days_shift:
  assumes "a < b" and "counts H (combine_min a)" and "counts H (combine_min b)"
  shows "int (length (counted_days H a (b - 1))) = int (length (counted_days H (a + 1) b))"
proof -
  from assms(1) have le: "a \<le> b" by simp
  from length_counted_first [OF le, of H] length_counted_last [OF le, of H] assms(2,3)
  show ?thesis by simp
qed

lemma datetime_ordinal_back:
  "r = dt\<lparr>ordinal := x\<rparr> \<Longrightarrow> r\<lparr>ordinal := ordinal dt\<rparr> = dt"
  by simp

lemma stepped_empty:
  assumes "cc = None \<or> cc = Some [] \<or> (\<forall>y c. holiday_provider self y c = Inr {})"
    and "days \<noteq> 0" and "normalize_input self rt d None = Inr dt"
  shows "fst (add_working_days self rt d days cc) = working_day_loop {} days \<bar>days\<bar> dt"
proof -
  from get_holiday_set_empty [OF assms(1)]
  obtain log where "get_holiday_set self [year dt..year dt + days div 200 + 1] cc = (Inr {}, log)"
    by blast
  from add_working_days_stepped [OF assms(2,3) this] show ?thesis by simp
qed

lemma ymd_jan_2024:
  "ymd2ord 2024 1 5 = 738890" "ymd2ord 2024 1 6 = 738891" "ymd2ord 2024 1 8 = 738893"
  by (simp_all add: ymd2ord_def days_before_year_def days_before_month_def
      DAYS_BEFORE_MONTH_def is_leap_def)

lemma counts_weekday: "counts {} (combine_min d) \<longleftrightarrow> (d + 6) mod 7 < 5"
  by (simp add: counts_def weekday_def date_of_def combine_min_def)

lemma counted_days_append:
  "a \<le> m + 1 \<Longrightarrow> m \<le> b \<Longrightarrow> counted_days H a b = counted_days H a m @ counted_days H (m + 1) b"
proof (cases "a \<le> m")
  case True
  assume "m \<le> b"
  with True have "[a..b] = [a..m] @ [m + 1..b]" by (rule upto_split2)
  then show ?thesis by (simp add: counted_days_def)
next
  case False
  assume "a \<le> m + 1"
  with False have "a = m + 1" by simp
  then show ?thesis by (simp add: counted_days_def)
qed

lemma weekdays_of_week:
  fixes q :: int
  assumes "0 \<le> m" "m < 7"
  shows "length (filter (\<lambda>d. (d + 6) mod 7 < 5)
     [7 * q + m + 1, 7 * q + m + 2, 7 * q + m + 3, 7 * q + m + 4,
      7 * q + m + 5, 7 * q + m + 6, 7 * q + m + 7]) = 5"
proof -
  from assms consider "m = 0" | "m = 1" | "m = 2" | "m = 3" | "m = 4" | "m = 5" | "m = 6"
    by linarith
  then show ?thesis
    by cases simp_all
qed

lemma week_block: "length (counted_days {} (b + 1) (b + 7)) = 5"
proof -
  define q m where "q = b div 7" and "m = b mod 7"
  have b: "b = 7 * q + m" and m: "0 \<le> m" "m < 7"
    by (simp_all add: q_def m_def)
  have list: "[b + 1..b + 7] = [b + 1, b + 2, b + 3, b + 4, b + 5, b + 6, b + 7]"
    by (simp add: upto_rec1)
  have "length (filter (\<lambda>d. (d + 6) mod 7 < 5)
          [b + 1, b + 2, b + 3, b + 4, b + 5, b + 6, b + 7]) = 5"
    unfolding b using m by (rule weekdays_of_week)
  then show ?thesis
    by (simp only: counted_days_def list counts_weekday)
qed

lemma weekdays_in_weeks:
  "int (length (counted_days {} (a + 1) (a + 7 * int k))) = 5 * int k"
proof (induction k)
  case 0
  then show ?case by (simp add: counted_days_none)
next
  case (Suc k)
  let ?m = "a + 7 * int k"
  have end_eq: "a + 7 * int (Suc k) = ?m + 7" by simp
  have "counted_days {} (a + 1) (?m + 7)
          = counted_days {} (a + 1) ?m @ counted_days {} (?m + 1) (?m + 7)"
    by (rule counted_days_append) simp_all
  then show ?case
    unfolding end_eq using Suc.IH week_block [of ?m] by simp
qed

lemma holidays_exclude_few:
  assumes "finite H"
  shows "int (length (counted_days {} a b)) \<le> int (length (counted_days H a b)) + int (card H)"
proof -
  let ?wk = "filter (\<lambda>d. counts {} (combine_min d)) [a..b]"
  have split: "length (filter (\<lambda>d. d \<notin> H) ?wk) + length (filter (\<lambda>d. \<not> d \<notin> H) ?wk) = length ?wk"
    by (rule sum_length_filter_compl)
  have kept: "filter (\<lambda>d. d \<notin> H) ?wk = counted_days H a b"
    by (simp add: counted_days_def counts_def date_of_def combine_min_def weekday_def conj_commute)
  have "distinct (filter (\<lambda>d. \<not> d \<notin> H) ?wk)" by simp
  then have "length (filter (\<lambda>d. \<not> d \<notin> H) ?wk) = card (set (filter (\<lambda>d. \<not> d \<notin> H) ?wk))"
    by (simp only: distinct_card)
  also have "\<dots> \<le> card H"
    using assms by (intro card_mono) auto
  finally have "length (filter (\<lambda>d. \<not> d \<notin> H) ?wk) \<le> card H" .
  with split kept show ?thesis
    by (simp add: counted_days_def)
qed

lemma five_sevenths:
  fixes k c l :: int
  assumes "5 * (k + c) \<le> l + c" and "0 \<le> k" and "0 \<le> c"
  shows "k \<le> l"
  using assms by presburger

lemma enough_days_ahead:
  assumes "finite H"
  shows "int k \<le> int (length (counted_days H (a + 1) (a + 7 * (int k + int (card H)))))"
proof -
  have "a + 7 * int (k + card H) = a + 7 * (int k + int (card H))" by simp
  with weekdays_in_weeks [of a "k + card H"]
  have "int (length (counted_days {} (a + 1) (a + 7 * (int k + int (card H)))))
          = 5 * int (k + card H)"
    by (simp only:)
  with holidays_exclude_few [OF assms, of "a + 1" "a + 7 * (int k + int (card H))"]
  have "5 * (int k + int (card H))
          \<le> int (length (counted_days H (a + 1) (a + 7 * (int k + int (card H))))) + int (card H)"
    by (simp only: of_nat_add)
  moreover have "0 \<le> int k" "0 \<le> int (card H)" by simp_all
  ultimately show ?thesis by (rule five_sevenths)
qed

lemma ymd_range_ends: "ymd2ord 9999 12 31 = 3652059" "ymd2ord 1 1 1 = 1"
  by (simp_all add: ymd2ord_def days_before_year_def days_before_month_def
      DAYS_BEFORE_MONTH_def is_leap_def)

section \<open>Zero offset\<close>

text \<open>
  C3. With offset 0, \<^verbatim>\<open>add_working_days(d, 0, cc)\<close> is \<^verbatim>\<open>normalize(d)\<close> for every input
  and every country code (absent ones included): a date of \<^verbatim>\<open>normalize\<close> is returned as
  it is and an error of \<^verbatim>\<open>normalize\<close> is raised as it is, without any stepping, and the
  holiday provider is not called.
\<close>

theorem add_working_days_zero:
  "add_working_days self rt d 0 cc = (normalize_input self rt d None, [])"
  by (simp add: add_working_days_def)

section \<open>The years asked of the provider\<close>

text \<open>
  C1, as amended. \<^verbatim>\<open>range(dt.year, dt.year + days // 200 + 2)\<close> excludes its upper
  end. For a positive offset, a present country code and a provider that answers every
  year, the provider is called exactly once for each of the years
  \<open>refYear .. refYear + days div 200 + 1\<close>, in ascending order and for no other year;
  for offset 250 these are the three years \<open>refYear, refYear + 1, refYear + 2\<close>.
\<close>

theorem required_years_queried_once:
  assumes norm: "normalize_input self rt d None = Inr dt"
    and pos: "0 < days" and cc: "cc \<noteq> []"
    and ok: "\<forall>y\<in>set [year dt..year dt + days div 200 + 1].
               \<exists>hs. holiday_provider self y cc = Inr hs"
  shows "snd (add_working_days self rt d days (Some cc))
           = map (\<lambda>y. (y, cc)) [year dt..year dt + days div 200 + 1]
       \<and> distinct (snd (add_working_days self rt d days (Some cc)))
       \<and> (days = 250 \<longrightarrow> snd (add_working_days self rt d days (Some cc))
             = [(year dt, cc), (year dt + 1, cc), (year dt + 2, cc)])"
proof -
  let ?ys = "[year dt..year dt + days div 200 + 1]"
  obtain H where H: "fetch_years (holiday_provider self) cc ?ys {} []
                       = (Inr H, [] @ map (\<lambda>y. (y, cc)) ?ys)"
    using fetch_years_all_ok [of ?ys "holiday_provider self" cc "{}" "[]"] ok by blast
  have "get_holiday_set self ?ys (Some cc) = (Inr H, map (\<lambda>y. (y, cc)) ?ys)"
    using cc H by simp
  then have log: "snd (add_working_days self rt d days (Some cc)) = map (\<lambda>y. (y, cc)) ?ys"
    using add_working_days_stepped [OF _ norm, of days "Some cc" H] pos by simp
  show ?thesis
  proof (intro conjI impI)
    show "snd (add_working_days self rt d days (Some cc)) = map (\<lambda>y. (y, cc)) ?ys"
      by (rule log)
    show "distinct (snd (add_working_days self rt d days (Some cc)))"
      unfolding log by (rule distinct_calls)
    assume "days = 250"
    then have "?ys = [year dt, year dt + 1, year dt + 2]"
      by (simp add: upto_rec1)
    then show "snd (add_working_days self rt d days (Some cc))
                 = [(year dt, cc), (year dt + 1, cc), (year dt + 2, cc)]"
      unfolding log by simp
  qed
qed

theorem required_years_queried_once_witness:
  "snd (add_working_days service example_runtime (InDate (ymd2ord 2024 1 1)) 250 (Some ''US''))
     = [(2024, ''US''), (2025, ''US''), (2026, ''US'')]"
proof -
  have norm: "normalize_input service example_runtime (InDate (ymd2ord 2024 1 1)) None
                = Inr (combine_min 738886)"
    by (simp add: ymd2ord_2024_01_01)
  have ok: "\<forall>y\<in>set [year (combine_min 738886)..year (combine_min 738886) + 250 div 200 + 1].
              \<exists>hs. holiday_provider service y ''US'' = Inr hs"
    by (simp add: service_def mock_provider_def)
  from required_years_queried_once [OF norm _ _ ok] show ?thesis
    by (simp add: year_2024_01_01)
qed

text \<open>
  The claim as it was stated asks for the four years 2024 to 2027 at offset 250 from
  2024-01-01; the provider is asked for 2024, 2025 and 2026. At offset -250 the
  magnitude would give the same years, and the provider is not asked at all. When the
  provider fails for 2025, the years after it are not asked.
\<close>

theorem required_years_inclusive_span_counterexample:
  "snd (add_working_days service example_runtime (InDate (ymd2ord 2024 1 1)) 250 (Some ''US''))
     = [(2024, ''US''), (2025, ''US''), (2026, ''US'')]
   \<and> snd (add_working_days service example_runtime (InDate (ymd2ord 2024 1 1)) 250 (Some ''US''))
     \<noteq> map (\<lambda>y. (y, ''US'')) [2024..2024 + \<bar>250\<bar> div 200 + 2]
   \<and> snd (add_working_days service example_runtime (InDate (ymd2ord 2024 1 1)) (- 250)
          (Some ''US''))
     = []
   \<and> map (\<lambda>y. (y, ''US'')) [2024..2024 + \<bar>- 250\<bar> div 200 + 2] \<noteq> []
   \<and> snd (add_working_days
            \<lparr>config = \<lparr>default_input_format = ''%d.%m.%Y''\<rparr>,
               holiday_provider = failing_provider\<rparr>
            example_runtime (InDate (ymd2ord 2024 1 1)) 250 (Some ''US''))
     = [(2024, ''US''), (2025, ''US'')]"
  by (simp add: add_working_days_def ymd2ord_2024_01_01 year_2024_01_01 py_range_def upto_rec1
      service_def mock_provider_def failing_provider_def)

text \<open>
  C10. With a negative offset and a present country code no year before the reference
  year is asked of the provider. For offsets from -200 to -1 the year list is the
  reference year alone and exactly that year is asked. For offsets of -201 and below the
  year list is empty: no call is made, the holiday set is empty, and the result is that
  of stepping backwards over weekends only.
\<close>

theorem negative_offset_years:
  assumes norm: "normalize_input self rt d None = Inr dt"
    and neg: "days < 0" and cc: "cc \<noteq> []"
  shows "(\<forall>y\<in>set (py_range (year dt) (year dt + days div 200 + 2)). year dt \<le> y)
       \<and> (\<forall>c\<in>set (snd (add_working_days self rt d days (Some cc))). year dt \<le> fst c)
       \<and> (- 200 \<le> days \<longrightarrow> py_range (year dt) (year dt + days div 200 + 2) = [year dt]
             \<and> snd (add_working_days self rt d days (Some cc)) = [(year dt, cc)])
       \<and> (days \<le> - 201 \<longrightarrow> py_range (year dt) (year dt + days div 200 + 2) = []
             \<and> get_holiday_set self (py_range (year dt) (year dt + days div 200 + 2)) (Some cc)
                 = (Inr {}, [])
             \<and> add_working_days self rt d days (Some cc)
                 = (working_day_loop {} days \<bar>days\<bar> dt, []))"
proof -
  let ?ys = "[year dt..year dt + days div 200 + 1]"
  have small: "?ys = [year dt]" if "- 200 \<le> days"
  proof -
    from that neg have "days div 200 = - 1" by presburger
    then show ?thesis by (simp add: upto_rec1)
  qed
  have large: "?ys = []" if "days \<le> - 201"
  proof -
    from that have "days div 200 \<le> - 2" by presburger
    then show ?thesis by simp
  qed
  have one: "snd (add_working_days self rt d days (Some cc)) = [(year dt, cc)]" if "- 200 \<le> days"
  proof (cases "holiday_provider self (year dt) cc")
    case (Inl e)
    then have "get_holiday_set self ?ys (Some cc) = (Inl e, [(year dt, cc)])"
      using cc small [OF that] by simp
    from add_working_days_provider_error [OF _ norm this] neg show ?thesis by simp
  next
    case (Inr hs)
    then have "get_holiday_set self ?ys (Some cc) = (Inr hs, [(year dt, cc)])"
      using cc small [OF that] by simp
    from add_working_days_stepped [OF _ norm this] neg show ?thesis by simp
  qed
  have none: "add_working_days self rt d days (Some cc) = (working_day_loop {} days \<bar>days\<bar> dt, [])"
    if "days \<le> - 201"
  proof -
    have "get_holiday_set self ?ys (Some cc) = (Inr {}, [])"
      using cc large [OF that] by simp
    from add_working_days_stepped [OF _ norm this] neg show ?thesis by simp
  qed
  have calls: "\<forall>c\<in>set (snd (add_working_days self rt d days (Some cc))). year dt \<le> fst c"
  proof (cases "- 200 \<le> days")
    case True
    then show ?thesis by (simp add: one)
  next
    case False
    then have "days \<le> - 201" by simp
    then show ?thesis by (simp add: none)
  qed
  show ?thesis
    using small large one none calls cc by (simp add: required_years_eq)
qed

theorem negative_offset_years_witness:
  "snd (add_working_days \<lparr>config = \<lparr>default_input_format = ''%d.%m.%Y''\<rparr>,
                          holiday_provider = new_year_provider\<rparr>
          example_runtime (InDate (ymd2ord 2024 1 1)) (- 3) (Some ''US'')) = [(2024, ''US'')]
   \<and> snd (add_working_days \<lparr>config = \<lparr>default_input_format = ''%d.%m.%Y''\<rparr>,
                          holiday_provider = new_year_provider\<rparr>
          example_runtime (InDate (ymd2ord 2024 1 1)) (- 201) (Some ''US'')) = []
   \<and> py_range 2024 (2024 + (- 201) div 200 + 2) = []"
proof -
  let ?svc = "\<lparr>config = \<lparr>default_input_format = ''%d.%m.%Y''\<rparr>,
               holiday_provider = new_year_provider\<rparr>"
  have norm: "normalize_input ?svc example_runtime (InDate (ymd2ord 2024 1 1)) None
                = Inr (combine_min 738886)"
    by (simp add: ymd2ord_2024_01_01)
  have cc: "''US'' \<noteq> []" by simp
  have a: "(- 3 :: int) < 0" and b: "(- 201 :: int) < 0" by simp_all
  from negative_offset_years [OF norm a cc] negative_offset_years [OF norm b cc]
  show ?thesis
    by (simp add: year_2024_01_01)
qed

section \<open>No country code\<close>



section \<open>Provider failure\<close>

text \<open>
  C6. Let the offset be non-zero and the country code present, and let the provider
  raise \<open>e\<close> for a year \<open>y\<close> of the required years after answering every earlier one.
  Then \<^verbatim>\<open>add_working_days\<close> raises \<open>e\<close> itself. The provider has been called once for
  each year up to \<open>y\<close> and for no year after it: the failed call is not repeated, the
  later years are not tried, and the outcome carries neither the holidays fetched so far
  nor a date.
\<close>

theorem provider_error_propagates:
  assumes norm: "normalize_input self rt d None = Inr dt"
    and nz: "days \<noteq> 0" and cc: "cc \<noteq> []"
    and span: "y \<in> set (py_range (year dt) (year dt + days div 200 + 2))"
    and before: "\<forall>y'\<in>set (py_range (year dt) (year dt + days div 200 + 2)).
                   y' < y \<longrightarrow> (\<exists>hs. holiday_provider self y' cc = Inr hs)"
    and fails: "holiday_provider self y cc = Inl e"
  shows "add_working_days self rt d days (Some cc) = (Inl e, map (\<lambda>y. (y, cc)) [year dt..y])"
proof -
  let ?hi = "year dt + days div 200 + 1"
  from span have y: "year dt \<le> y" "y \<le> ?hi"
    by (simp_all add: required_years_eq)
  then have split: "[year dt..?hi] = [year dt..y - 1] @ y # [y + 1..?hi]"
    by (rule upto_split3)
  have ok: "\<forall>y'\<in>set [year dt..y - 1]. \<exists>hs. holiday_provider self y' cc = Inr hs"
    using before y by (simp add: required_years_eq)
  have "[year dt..y] = [year dt..y - 1] @ [y]"
    using y(1) by (simp add: upto_rec2)
  then have "fetch_years (holiday_provider self) cc [year dt..?hi] {} []
          = (Inl e, map (\<lambda>y. (y, cc)) [year dt..y])"
    unfolding split
    using fetch_years_first_failure
      [of "[year dt..y - 1]" "holiday_provider self" cc y e "[y + 1..?hi]" "{}" "[]"] ok fails
    by simp
  then have "get_holiday_set self [year dt..?hi] (Some cc)
               = (Inl e, map (\<lambda>y. (y, cc)) [year dt..y])"
    using cc by simp
  then show ?thesis
    by (rule add_working_days_provider_error [OF nz norm])
qed

theorem provider_error_propagates_witness:
  "add_working_days \<lparr>config = \<lparr>default_input_format = ''%d.%m.%Y''\<rparr>,
                     holiday_provider = failing_provider\<rparr>
     example_runtime (InDate (ymd2ord 2024 1 1)) 250 (Some ''US'')
   = (Inl (ProviderError ''timeout''), [(2024, ''US''), (2025, ''US'')])"
proof -
  let ?svc = "\<lparr>config = \<lparr>default_input_format = ''%d.%m.%Y''\<rparr>,
               holiday_provider = failing_provider\<rparr>"
  let ?dt = "combine_min 738886"
  have norm: "normalize_input ?svc example_runtime (InDate (ymd2ord 2024 1 1)) None = Inr ?dt"
    by (simp add: ymd2ord_2024_01_01)
  have nz: "(250 :: int) \<noteq> 0" and cc: "''US'' \<noteq> []" by simp_all
  have span: "2025 \<in> set (py_range (year ?dt) (year ?dt + 250 div 200 + 2))"
    by (simp add: year_2024_01_01 py_range_def)
  have before: "\<forall>y'\<in>set (py_range (year ?dt) (year ?dt + 250 div 200 + 2)).
                  y' < 2025 \<longrightarrow> (\<exists>hs. holiday_provider ?svc y' ''US'' = Inr hs)"
    by (simp add: failing_provider_def)
  have fails: "holiday_provider ?svc 2025 ''US'' = Inl (ProviderError ''timeout'')"
    by (simp add: failing_provider_def)
  from provider_error_propagates [OF norm nz cc span before fails] show ?thesis
    by (simp add: year_2024_01_01 upto_rec1)
qed

section \<open>The outcomes of normalize\<close>

text \<open>
  C7, as amended. The chosen format is the configured default when no format or the
  empty format is given, and the given format otherwise. For an input on which
  \<^verbatim>\<open>strptime\<close> raises no exception other than \<^verbatim>\<open>ValueError\<close>: \<^verbatim>\<open>normalize\<close> raises a
  \<^verbatim>\<open>DateOperationError\<close> exactly when the input is a string for which \<^verbatim>\<open>strptime\<close>
  raises \<^verbatim>\<open>ValueError\<close> with the chosen format, and the message then contains both that
  string and that format; it raises a \<^verbatim>\<open>TypeError\<close>, another error, exactly when the
  input is of an unsupported type. \<^verbatim>\<open>None\<close> gives the current moment, a \<^verbatim>\<open>datetime\<close> is
  returned as it is and a \<^verbatim>\<open>date\<close> at midnight.
\<close>

theorem normalize_outcomes:
  assumes caught: "\<forall>s e. x = InStr s \<longrightarrow> strptime rt s (chosen_format self fmt) = Inl e
                     \<longrightarrow> (\<exists>m. e = ValueError m)"
  shows "normalize_input self rt InNone fmt = Inr (now rt)
   \<and> normalize_input self rt (InDatetime dt) fmt = Inr dt
   \<and> normalize_input self rt (InDate d) fmt = Inr (combine_min d)
   \<and> ((\<exists>msg. normalize_input self rt x fmt = Inl (DateOperationError msg))
        \<longleftrightarrow> (\<exists>s m. x = InStr s \<and> strptime rt s (chosen_format self fmt) = Inl (ValueError m)))
   \<and> (\<forall>s msg. x = InStr s \<longrightarrow> normalize_input self rt x fmt = Inl (DateOperationError msg)
        \<longrightarrow> msg = parse_error_message s (chosen_format self fmt)
            \<and> sublist s msg \<and> sublist (chosen_format self fmt) msg)
   \<and> ((\<exists>msg. normalize_input self rt x fmt = Inl (TypeError msg)) \<longleftrightarrow> (\<exists>ty. x = InOther ty))
   \<and> (\<forall>msg msg'. TypeError msg \<noteq> DateOperationError msg')
   \<and> chosen_format self None = default_input_format (config self)
   \<and> chosen_format self (Some []) = default_input_format (config self)
   \<and> (f \<noteq> [] \<longrightarrow> chosen_format self (Some f) = f)"
proof (intro conjI impI allI)
  show "(\<exists>msg. normalize_input self rt x fmt = Inl (DateOperationError msg))
        \<longleftrightarrow> (\<exists>s m. x = InStr s \<and> strptime rt s (chosen_format self fmt) = Inl (ValueError m))"
    using caught by (cases x) (auto simp: Let_def split: sum.splits error.splits)
  show "(\<exists>msg. normalize_input self rt x fmt = Inl (TypeError msg)) \<longleftrightarrow> (\<exists>ty. x = InOther ty)"
    using caught by (cases x) (auto simp: Let_def split: sum.splits error.splits)
next
  fix s msg
  assume "x = InStr s" and "normalize_input self rt x fmt = Inl (DateOperationError msg)"
  with caught show msg: "msg = parse_error_message s (chosen_format self fmt)"
    by (auto simp: Let_def split: sum.splits error.splits)
  show "sublist s msg" "sublist (chosen_format self fmt) msg"
    unfolding msg using parse_error_message_contains by blast+
qed simp_all

theorem normalize_outcomes_witness:
  "normalize_input service example_runtime (InStr ''tomorrow'') None
     = Inl (DateOperationError (parse_error_message ''tomorrow'' ''%d.%m.%Y''))
   \<and> sublist ''tomorrow'' (parse_error_message ''tomorrow'' ''%d.%m.%Y'')
   \<and> sublist ''%d.%m.%Y'' (parse_error_message ''tomorrow'' ''%d.%m.%Y'')
   \<and> chosen_format service (Some ''%Y-%m-%d'') = ''%Y-%m-%d''"
proof -
  have c: "chosen_format service None = ''%d.%m.%Y''"
    by (simp add: service_def)
  have caught: "\<forall>s e. InStr ''tomorrow'' = InStr s
                  \<longrightarrow> strptime example_runtime s (chosen_format service None) = Inl e
                  \<longrightarrow> (\<exists>m. e = ValueError m)"
    by (auto simp: service_def example_runtime_def example_strptime_def)
  have n: "normalize_input service example_runtime (InStr ''tomorrow'') None
             = Inl (DateOperationError (parse_error_message ''tomorrow'' ''%d.%m.%Y''))"
    by (simp add: service_def example_runtime_def example_strptime_def)
  from normalize_outcomes [OF caught, of _ _ "''%Y-%m-%d''"] n c
  show ?thesis by simp
qed

text \<open>
  The claim as it was stated fails in two ways. The string \<^verbatim>\<open>01.01.2024\<close> does not
  parse against the explicit format \<^verbatim>\<open>''\<close>, yet \<^verbatim>\<open>normalize\<close> returns 2024-01-01: the
  empty format counts as no format and the default is taken. With the explicit format
  \<^verbatim>\<open>%d.%d.%Y\<close> the same string does not parse either, and \<^verbatim>\<open>normalize\<close> raises neither a
  \<^verbatim>\<open>DateOperationError\<close> nor a \<^verbatim>\<open>TypeError\<close> but the \<^verbatim>\<open>re.error\<close> of \<^verbatim>\<open>strptime\<close>.
\<close>

theorem normalize_explicit_format_counterexample:
  "strptime example_runtime ''01.01.2024'' [] = Inl (ValueError ''time data does not match format'')
   \<and> normalize_input service example_runtime (InStr ''01.01.2024'') (Some [])
       = Inr (combine_min (ymd2ord 2024 1 1))
   \<and> strptime example_runtime ''01.01.2024'' ''%d.%d.%Y''
       = Inl (ReError ''redefinition of group name'')
   \<and> normalize_input service example_runtime (InStr ''01.01.2024'') (Some ''%d.%d.%Y'')
       = Inl (ReError ''redefinition of group name'')"
  by (simp add: service_def example_runtime_def example_strptime_def ymd2ord_2024_01_01)

section \<open>Two scenarios\<close>

text \<open>
  C8. From 2024-01-01, a Monday, without a country code (so with the empty holiday
  set), \<^verbatim>\<open>add_working_days\<close> with offset 5 returns 2024-01-08, a Monday, and with
  offset -3 it returns 2023-12-27, a Wednesday; the time of day is kept and no provider
  call is made.
\<close>

theorem add_working_days_scenarios:
  "add_working_days self rt (InDatetime \<lparr>ordinal = ymd2ord 2024 1 1, tod = t\<rparr>) 5 None
     = (Inr \<lparr>ordinal = ymd2ord 2024 1 8, tod = t\<rparr>, [])
   \<and> weekday \<lparr>ordinal = ymd2ord 2024 1 8, tod = t\<rparr> = 0
   \<and> add_working_days self rt (InDatetime \<lparr>ordinal = ymd2ord 2024 1 1, tod = t\<rparr>) (- 3) None
     = (Inr \<lparr>ordinal = ymd2ord 2023 12 27, tod = t\<rparr>, [])
   \<and> weekday \<lparr>ordinal = ymd2ord 2023 12 27, tod = t\<rparr> = 2
   \<and> weekday \<lparr>ordinal = ymd2ord 2024 1 1, tod = t\<rparr> = 0
   \<and> ord2ymd (ymd2ord 2024 1 8) = (2024, 1, 8)
   \<and> ord2ymd (ymd2ord 2023 12 27) = (2023, 12, 27)"
proof -
  have fwd: "working_day_loop {} 5 5 \<lparr>ordinal = 738886, tod = t\<rparr>
               = Inr \<lparr>ordinal = 738893, tod = t\<rparr>"
    by (simp add: loop_eval)
  have bwd: "working_day_loop {} (- 3) 3 \<lparr>ordinal = 738886, tod = t\<rparr>
               = Inr \<lparr>ordinal = 738881, tod = t\<rparr>"
    by (simp add: loop_eval)
  have ymd: "ord2ymd 738893 = (2024, 1, 8)" "ord2ymd 738881 = (2023, 12, 27)"
    by (simp_all add: ord2ymd_def Let_def DAYS_BEFORE_MONTH_def DAYS_IN_MONTH_def)
  show ?thesis
    by (simp add: add_working_days_def ymd2ord_2024_01_01 ymd2ord_2024_01_08
        ymd2ord_2023_12_27 fwd bwd ymd weekday_def)
qed

theorem add_working_days_scenarios_witness:
  "add_working_days service example_runtime
     (InDatetime \<lparr>ordinal = ymd2ord 2024 1 1, tod = 0\<rparr>) 5 None
     = (Inr \<lparr>ordinal = ymd2ord 2024 1 8, tod = 0\<rparr>, [])
   \<and> add_working_days service example_runtime
     (InDatetime \<lparr>ordinal = ymd2ord 2024 1 1, tod = 0\<rparr>) (- 3) None
     = (Inr \<lparr>ordinal = ymd2ord 2023 12 27, tod = 0\<rparr>, [])
   \<and> ord2ymd (ymd2ord 2024 1 8) = (2024, 1, 8)
   \<and> ord2ymd (ymd2ord 2023 12 27) = (2023, 12, 27)"
  using add_working_days_scenarios [of service example_runtime 0] by simp

section \<open>The result lies beyond the start\<close>

text \<open>
  C2. Whenever \<^verbatim>\<open>add_working_days\<close> with a non-zero offset returns a date \<open>r\<close>, for
  the normalized start \<open>dt\<close> and the holiday set resolved for the call: \<open>r\<close> is strictly
  later than \<open>dt\<close> for a positive offset and strictly earlier for a negative one, with
  the time of day of \<open>dt\<close>; its weekday is Monday to Friday and its date is not in the
  holiday set. The days counted are exactly \<open>\<bar>days\<bar>\<close> many and all of them lie strictly
  beyond the start, up to and including \<open>r\<close>: the start itself is not among them,
  whether it is a working day or not.
\<close>

theorem result_beyond_start:
  assumes res: "add_working_days self rt d days cc = (Inr r, log)" and nz: "days \<noteq> 0"
  shows "\<exists>dt holidays.
      normalize_input self rt d None = Inr dt
    \<and> get_holiday_set self (py_range (year dt) (year dt + days div 200 + 2)) cc
        = (Inr holidays, log)
    \<and> (0 < days \<longrightarrow> dt_less dt r
          \<and> int (length (counted_days holidays (ordinal dt + 1) (ordinal r))) = days)
    \<and> (days < 0 \<longrightarrow> dt_less r dt
          \<and> int (length (counted_days holidays (ordinal r) (ordinal dt - 1))) = - days)
    \<and> r \<noteq> dt \<and> tod r = tod dt \<and> weekday r < 5 \<and> date_of r \<notin> holidays"
proof -
  from res nz obtain dt holidays where norm: "normalize_input self rt d None = Inr dt"
    and hol: "get_holiday_set self (py_range (year dt) (year dt + days div 200 + 2)) cc
                = (Inr holidays, log)"
    and loop: "working_day_loop holidays days \<bar>days\<bar> dt = Inr r"
    by (rule add_working_days_result)
  have "(0 < days \<longrightarrow> dt_less dt r
          \<and> int (length (counted_days holidays (ordinal dt + 1) (ordinal r))) = days)
    \<and> (days < 0 \<longrightarrow> dt_less r dt
          \<and> int (length (counted_days holidays (ordinal r) (ordinal dt - 1))) = - days)
    \<and> r \<noteq> dt \<and> tod r = tod dt \<and> weekday r < 5 \<and> date_of r \<notin> holidays"
  proof (cases "0 < days")
    case True
    then have "0 < \<bar>days\<bar>" by simp
    from loop_forward_result [OF loop True this] True
    have "r = dt\<lparr>ordinal := ordinal r\<rparr>" "ordinal dt < ordinal r" "counts holidays r"
      "int (length (counted_days holidays (ordinal dt + 1) (ordinal r))) = days"
      by simp_all
    moreover from \<open>r = dt\<lparr>ordinal := ordinal r\<rparr>\<close> have "tod r = tod dt"
      by (metis datetime.select_convs(2) datetime.surjective datetime.update_convs(1))
    ultimately show ?thesis using True
      by (auto simp: dt_less_def counts_def)
  next
    case False
    with nz have neg: "days \<le> 0" "days < 0" "0 < \<bar>days\<bar>" by simp_all
    from loop_backward_result [OF loop neg(1) neg(3)] neg(2)
    have "r = dt\<lparr>ordinal := ordinal r\<rparr>" "ordinal r < ordinal dt" "counts holidays r"
      "int (length (counted_days holidays (ordinal r) (ordinal dt - 1))) = - days"
      by simp_all
    moreover from \<open>r = dt\<lparr>ordinal := ordinal r\<rparr>\<close> have "tod r = tod dt"
      by (metis datetime.select_convs(2) datetime.surjective datetime.update_convs(1))
    ultimately show ?thesis using neg
      by (auto simp: dt_less_def counts_def)
  qed
  with norm hol show ?thesis by blast
qed

theorem result_beyond_start_witness:
  "add_working_days \<lparr>config = \<lparr>default_input_format = ''%d.%m.%Y''\<rparr>,
                     holiday_provider = new_year_provider\<rparr>
     example_runtime (InDate 738883) 1 (Some ''US'')
     = (Inr (combine_min 738887), [(2023, ''US''), (2024, ''US'')])
   \<and> dt_less (combine_min 738883) (combine_min 738887)
   \<and> weekday (combine_min 738887) < 5
   \<and> counted_days {738521, 738886} 738884 738887 = [738887]"
proof -
  let ?svc = "\<lparr>config = \<lparr>default_input_format = ''%d.%m.%Y''\<rparr>,
               holiday_provider = new_year_provider\<rparr>"
  have hol: "get_holiday_set ?svc [2023, 2024] (Some ''US'')
               = (Inr {738521, 738886}, [(2023, ''US''), (2024, ''US'')])"
    by (auto simp: new_year_provider_def ymd_new_year)
  have loop: "working_day_loop {738521, 738886} 1 1 (combine_min 738883) = Inr (combine_min 738887)"
    by (simp add: loop_eval combine_min_def)
  have res: "add_working_days ?svc example_runtime (InDate 738883) 1 (Some ''US'')
     = (Inr (combine_min 738887), [(2023, ''US''), (2024, ''US'')])"
    using hol loop
    by (simp add: add_working_days_def year_2023_12_29 py_range_def upto_rec1)
  have cd: "counted_days {738521, 738886} 738884 738887 = [738887]"
    by (simp add: counted_days_def upto_rec1 counts_def weekday_def date_of_def combine_min_def)
  from result_beyond_start [OF res] res cd show ?thesis
    by (auto simp: year_2023_12_29 py_range_def upto_rec1)
qed

section \<open>Going forth and back\<close>

text \<open>
  C5, as amended. Let the holiday set be empty (no country code, or a provider without
  holidays), let \<^verbatim>\<open>normalize(d)\<close> be a date on a weekday from Monday to Friday, and let
  \<^verbatim>\<open>add_working_days(d, n, cc)\<close> return \<open>r\<close>. Then \<^verbatim>\<open>add_working_days(r, -n, cc)\<close>
  returns \<^verbatim>\<open>normalize(d)\<close>, for every integer \<open>n\<close>.
\<close>

theorem inverse_round_trip:
  assumes empty: "cc = None \<or> cc = Some [] \<or> (\<forall>y c. holiday_provider self y c = Inr {})"
    and norm: "normalize_input self rt d None = Inr dt"
    and valid: "valid_datetime dt"
    and wd: "weekday dt < 5"
    and inner: "fst (add_working_days self rt d n cc) = Inr r"
  shows "fst (add_working_days self rt (InDatetime r) (- n) cc) = Inr dt"
proof -
  have cdt: "counts {} (combine_min (ordinal dt))"
    using wd counts_ordinal [of "{}" dt] by (simp add: counts_def)
  have normr: "normalize_input self rt (InDatetime r) None = Inr r" by simp
  consider "n = 0" | "0 < n" | "n < 0" by linarith
  then show ?thesis
  proof cases
    case 1
    with inner norm show ?thesis by (simp add: add_working_days_def)
  next
    case 2
    then have nz: "n \<noteq> 0" "- n \<noteq> 0" and abs: "\<bar>n\<bar> = n" "\<bar>- n\<bar> = n" by simp_all
    from inner stepped_empty [OF empty nz(1) norm]
    have "working_day_loop {} n n dt = Inr r" by (simp add: abs)
    from loop_forward_result [OF this 2 2]
    have r: "r = dt\<lparr>ordinal := ordinal r\<rparr>" and lt: "ordinal dt < ordinal r"
      and hi: "ordinal r \<le> MAXORDINAL" and cr: "counts {} r"
      and len: "int (length (counted_days {} (ordinal dt + 1) (ordinal r))) = n"
      by simp_all
    from cr have cr': "counts {} (combine_min (ordinal r))"
      using counts_ordinal [of "{}" r] by simp
    have len': "int (length (counted_days {} (ordinal dt) (ordinal r - 1))) = n"
      using counted_days_shift [OF lt cdt cr'] len by simp
    have "working_day_loop {} (- n) n r = Inr (r\<lparr>ordinal := ordinal dt\<rparr>)"
    proof (rule loop_backward_reaches)
      show "- n \<le> 0" "0 < n" using 2 by simp_all
      show "ordinal dt < ordinal r" by (rule lt)
      show "0 < ordinal dt" using valid by (simp add: valid_datetime_def)
      show "ordinal r - 1 \<le> MAXORDINAL" using hi by simp
      show "counts {} (combine_min (ordinal dt))" by (rule cdt)
      show "int (length (counted_days {} (ordinal dt) (ordinal r - 1))) = n" by (rule len')
    qed
    also have "r\<lparr>ordinal := ordinal dt\<rparr> = dt" using r by (rule datetime_ordinal_back)
    finally show ?thesis
      using stepped_empty [OF empty nz(2) normr] by (simp add: abs)
  next
    case 3
    then have nz: "n \<noteq> 0" "- n \<noteq> 0" and abs: "\<bar>n\<bar> = - n" "\<bar>- n\<bar> = - n"
      and le: "n \<le> 0" and pos: "0 < - n" by simp_all
    from inner stepped_empty [OF empty nz(1) norm]
    have "working_day_loop {} n (- n) dt = Inr r" by (simp add: abs)
    from loop_backward_result [OF this le pos]
    have r: "r = dt\<lparr>ordinal := ordinal r\<rparr>" and lt: "ordinal r < ordinal dt"
      and lo: "0 < ordinal r" and cr: "counts {} r"
      and len: "int (length (counted_days {} (ordinal r) (ordinal dt - 1))) = - n"
      by simp_all
    from cr have cr': "counts {} (combine_min (ordinal r))"
      using counts_ordinal [of "{}" r] by simp
    have len': "int (length (counted_days {} (ordinal r + 1) (ordinal dt))) = - n"
      using counted_days_shift [OF lt cr' cdt] len by simp
    have "working_day_loop {} (- n) (- n) r = Inr (r\<lparr>ordinal := ordinal dt\<rparr>)"
    proof (rule loop_forward_reaches)
      show "0 < - n" "0 < - n" using 3 by simp_all
      show "ordinal r < ordinal dt" by (rule lt)
      show "ordinal dt \<le> MAXORDINAL" using valid by (simp add: valid_datetime_def)
      show "0 \<le> ordinal r" using lo by simp
      show "counts {} (combine_min (ordinal dt))" by (rule cdt)
      show "int (length (counted_days {} (ordinal r + 1) (ordinal dt))) = - n" by (rule len')
    qed
    also have "r\<lparr>ordinal := ordinal dt\<rparr> = dt" using r by (rule datetime_ordinal_back)
    finally show ?thesis
      using stepped_empty [OF empty nz(2) normr] by (simp add: abs)
  qed
qed

theorem inverse_round_trip_witness:
  "fst (add_working_days service example_runtime (InDate (ymd2ord 2024 1 1)) 5 (Some ''US''))
     = Inr (combine_min (ymd2ord 2024 1 8))
   \<and> fst (add_working_days service example_runtime (InDatetime (combine_min (ymd2ord 2024 1 8)))
        (- 5) (Some ''US''))
     = Inr (combine_min (ymd2ord 2024 1 1))"
proof -
  have empty: "Some ''US'' = None \<or> Some ''US'' = Some []
                 \<or> (\<forall>y c. holiday_provider service y c = Inr {})"
    by (simp add: service_def mock_provider_def)
  have norm: "normalize_input service example_runtime (InDate (ymd2ord 2024 1 1)) None
                = Inr (combine_min 738886)"
    by (simp add: ymd2ord_2024_01_01)
  have valid: "valid_datetime (combine_min 738886)"
    by (simp add: valid_datetime_def combine_min_def MAXORDINAL_def)
  have wd: "weekday (combine_min 738886) < 5"
    by (simp add: weekday_def combine_min_def)
  have loop: "working_day_loop {} 5 5 (combine_min 738886) = Inr (combine_min 738893)"
    by (simp add: loop_eval combine_min_def)
  have nz: "(5::int) \<noteq> 0" by simp
  have inner: "fst (add_working_days service example_runtime (InDate (ymd2ord 2024 1 1)) 5
                 (Some ''US'')) = Inr (combine_min 738893)"
    using stepped_empty [OF empty nz norm] loop by simp
  from inverse_round_trip [OF empty norm valid wd inner] inner show ?thesis
    by (simp add: ymd_jan_2024 ymd2ord_2024_01_01)
qed

text \<open>
  From a Saturday the claim as it was stated fails: one working day after Saturday
  2024-01-06 is Monday 2024-01-08, and one working day before that Monday is Friday
  2024-01-05.
\<close>

theorem inverse_round_trip_weekend_counterexample:
  "fst (add_working_days service example_runtime (InDate (ymd2ord 2024 1 6)) 1 None)
     = Inr (combine_min (ymd2ord 2024 1 8))
   \<and> fst (add_working_days service example_runtime (InDatetime (combine_min (ymd2ord 2024 1 8)))
        (- 1) None)
     = Inr (combine_min (ymd2ord 2024 1 5))
   \<and> normalize_input service example_runtime (InDate (ymd2ord 2024 1 6)) None
     = Inr (combine_min (ymd2ord 2024 1 6))
   \<and> combine_min (ymd2ord 2024 1 5) \<noteq> combine_min (ymd2ord 2024 1 6)
   \<and> weekday (combine_min (ymd2ord 2024 1 6)) = 5"
  by (simp add: add_working_days_def ymd_jan_2024 loop_eval combine_min_def)

section \<open>Termination of the stepping loop\<close>

text \<open>
  C9, as amended. For every holiday set, start and offset the loop ends, either with a
  date or with the \<^verbatim>\<open>OverflowError\<close> of \<^verbatim>\<open>current += timedelta(days=step)\<close> at the end
  of the range of dates (0001-01-01 to 9999-12-31). For a finite holiday set it ends
  with a date whenever \<open>7 * (\<bar>days\<bar> + card holidays)\<close> days beyond the start are still in
  that range (seven consecutive days hold five weekdays, and the holidays take away at
  most \<open>card holidays\<close> of them), and more generally whenever \<open>\<bar>days\<bar>\<close> days that the
  loop counts lie beyond the start inside the range.
\<close>

theorem stepping_terminates:
  assumes fin: "finite holidays" and valid: "valid_datetime current"
  shows "((\<exists>r. working_day_loop holidays days \<bar>days\<bar> current = Inr r)
          \<or> working_day_loop holidays days \<bar>days\<bar> current = Inl OverflowError)
    \<and> (0 < days \<and> ordinal current + 7 * (days + int (card holidays)) \<le> MAXORDINAL
         \<longrightarrow> (\<exists>r. working_day_loop holidays days \<bar>days\<bar> current = Inr r))
    \<and> (days < 0 \<and> 7 * (- days + int (card holidays)) < ordinal current
         \<longrightarrow> (\<exists>r. working_day_loop holidays days \<bar>days\<bar> current = Inr r))
    \<and> (0 < days \<and> hi \<le> MAXORDINAL
           \<and> days \<le> int (length (counted_days holidays (ordinal current + 1) hi))
         \<longrightarrow> (\<exists>r. working_day_loop holidays days \<bar>days\<bar> current = Inr r))
    \<and> (days < 0 \<and> 0 < lo
           \<and> - days \<le> int (length (counted_days holidays lo (ordinal current - 1)))
         \<longrightarrow> (\<exists>r. working_day_loop holidays days \<bar>days\<bar> current = Inr r))"
proof (intro conjI impI)
  from valid have lo0: "0 \<le> ordinal current" and hi0: "ordinal current - 1 \<le> MAXORDINAL"
    by (simp_all add: valid_datetime_def)
  show "(\<exists>r. working_day_loop holidays days \<bar>days\<bar> current = Inr r)
          \<or> working_day_loop holidays days \<bar>days\<bar> current = Inl OverflowError"
  proof (cases "working_day_loop holidays days \<bar>days\<bar> current")
    case (Inl e)
    then show ?thesis using loop_only_overflow [OF Inl] by simp
  next
    case (Inr r)
    then show ?thesis by simp
  qed
  {
    assume a: "0 < days \<and> ordinal current + 7 * (days + int (card holidays)) \<le> MAXORDINAL"
    then have "int (nat \<bar>days\<bar>) = days" by simp
    with enough_days_ahead [OF fin, of "nat \<bar>days\<bar>" "ordinal current"]
    have "days \<le> int (length (counted_days holidays (ordinal current + 1)
             (ordinal current + 7 * (days + int (card holidays)))))"
      by (simp only:)
    with a have "\<bar>days\<bar> \<le> int (length (counted_days holidays (ordinal current + 1)
             (ordinal current + 7 * (days + int (card holidays)))))"
      by simp
    with a show "\<exists>r. working_day_loop holidays days \<bar>days\<bar> current = Inr r"
      by (intro loop_forward_returns [OF _ lo0]) simp_all
  }
  {
    assume a: "days < 0 \<and> 7 * (- days + int (card holidays)) < ordinal current"
    let ?lo = "ordinal current - 7 * (- days + int (card holidays))"
    from a have "int (nat \<bar>days\<bar>) = - days" by simp
    with enough_days_ahead [OF fin, of "nat \<bar>days\<bar>" "?lo - 1"]
    have "- days \<le> int (length (counted_days holidays (?lo - 1 + 1)
             (?lo - 1 + 7 * (- days + int (card holidays)))))"
      by (simp only:)
    moreover have "?lo - 1 + 1 = ?lo"
      "?lo - 1 + 7 * (- days + int (card holidays)) = ordinal current - 1"
      by simp_all
    ultimately have "- days \<le> int (length (counted_days holidays ?lo (ordinal current - 1)))"
      by (simp only:)
    with a have "\<bar>days\<bar> \<le> int (length (counted_days holidays ?lo (ordinal current - 1)))"
      by simp
    with a show "\<exists>r. working_day_loop holidays days \<bar>days\<bar> current = Inr r"
      by (intro loop_backward_returns [OF _ hi0, of days ?lo]) simp_all
  }
  {
    assume a: "0 < days \<and> hi \<le> MAXORDINAL
           \<and> days \<le> int (length (counted_days holidays (ordinal current + 1) hi))"
    then show "\<exists>r. working_day_loop holidays days \<bar>days\<bar> current = Inr r"
      by (intro loop_forward_returns [OF _ lo0, of days hi]) simp_all
  }
  {
    assume a: "days < 0 \<and> 0 < lo
           \<and> - days \<le> int (length (counted_days holidays lo (ordinal current - 1)))"
    then show "\<exists>r. working_day_loop holidays days \<bar>days\<bar> current = Inr r"
      by (intro loop_backward_returns [OF _ hi0, of days lo]) simp_all
  }
qed

theorem stepping_terminates_witness:
  "(\<exists>r. working_day_loop {738521, 738886} 1 \<bar>1\<bar> (combine_min 738883) = Inr r)
   \<and> (\<exists>r. working_day_loop {738521, 738886} (- 3) \<bar>- 3\<bar> (combine_min 738883) = Inr r)"
proof -
  have fin: "finite {738521, 738886 :: int}" by simp
  have valid: "valid_datetime (combine_min 738883)"
    by (simp add: valid_datetime_def combine_min_def MAXORDINAL_def)
  have c: "card {738521, 738886 :: int} = 2" by simp
  from stepping_terminates [OF fin valid, of 1] stepping_terminates [OF fin valid, of "- 3"]
  show ?thesis
    by (simp add: c combine_min_def MAXORDINAL_def)
qed

text \<open>
  One working day after 9999-12-31, or before 0001-01-01, is not a date: the loop ends
  with the error.
\<close>

theorem stepping_overflow_counterexample:
  "finite ({} :: date set)
   \<and> valid_datetime (combine_min (ymd2ord 9999 12 31))
   \<and> working_day_loop {} 1 \<bar>1\<bar> (combine_min (ymd2ord 9999 12 31)) = Inl OverflowError
   \<and> fst (add_working_days service example_runtime (InDate (ymd2ord 9999 12 31)) 1 None)
       = Inl OverflowError
   \<and> fst (add_working_days service example_runtime (InDate (ymd2ord 1 1 1)) (- 1) None)
       = Inl OverflowError"
  by (simp add: add_working_days_def ymd_range_ends loop_eval combine_min_def valid_datetime_def)

end
